theory Spec2Isabelle
  imports Main
begin

section \<open>The tab widget\<close>

text \<open>
  \<^verbatim>\<open>TabComponent\<close> has an input \<^verbatim>\<open>title\<close> (initially the empty string) and a flag
  \<^verbatim>\<open>active\<close> (initially false). Its two methods assign the flag.
\<close>

record TabComponent =
  title :: string
  active :: bool

definition new_TabComponent :: "string \<Rightarrow> TabComponent" where
  \<comment> \<open>the field initialisers, followed by the binding of the \<^verbatim>\<open>title\<close> input\<close>
  "new_TabComponent t = \<lparr>title = [], active = False\<rparr>\<lparr>title := t\<rparr>"

definition activate :: "TabComponent \<Rightarrow> TabComponent" where
  "activate tab = tab\<lparr>active := True\<rparr>"

definition deactivate :: "TabComponent \<Rightarrow> TabComponent" where
  "deactivate tab = tab\<lparr>active := False\<rparr>"

text \<open>
  \<^verbatim>\<open>TabGroupComponent\<close> declares \<^verbatim>\<open>tabs!: QueryList<TabComponent>\<close>: the field is
  undefined until the framework has resolved the content query, and from then on it lists
  the child tabs, each child once, in document order. The field is therefore an optional
  list. The list elements stand for the child objects themselves: a method call on the
  element at a position is an update of the list at that position. Calling a method on
  the undefined field raises a \<^verbatim>\<open>TypeError\<close>.

  The \<^verbatim>\<open>console.log\<close> calls of the repository write to the developer console and leave
  every component untouched; the console is not part of the model.
\<close>

datatype jserror = TypeError

record TabGroupComponent =
  tabs :: "TabComponent list option"

definition ngAfterContentInit :: "TabGroupComponent \<Rightarrow> jserror + TabGroupComponent" where
  "ngAfterContentInit g =
     (case tabs g of
        None \<Rightarrow> Inl TypeError
      | Some ts \<Rightarrow>
          if length ts > 0 then Inr (g\<lparr>tabs := Some (ts[0 := activate (ts ! 0)])\<rparr>)
          else Inr g)"

text \<open>
  \<^verbatim>\<open>selectTab(index: number)\<close>. The array read \<^verbatim>\<open>tabsArray[index]\<close> yields a tab
  (an object, hence truthy) when \<^verbatim>\<open>index\<close> is an integer with
  \<^verbatim>\<open>0 <= index < tabsArray.length\<close>, and \<^verbatim>\<open>undefined\<close> (falsy) for every other number;
  it never raises. The template passes the \<^verbatim>\<open>ngFor\<close> position, an integer, so
  \<^verbatim>\<open>index\<close> is an \<^typ>\<open>int\<close>. \<^verbatim>\<open>toArray()\<close> copies the references, not the tabs:
  activating \<^verbatim>\<open>tabsArray[index]\<close> activates the child held by \<^verbatim>\<open>tabs\<close>.
\<close>

definition selectTab :: "int \<Rightarrow> TabGroupComponent \<Rightarrow> jserror + TabGroupComponent" where
  "selectTab index g =
     (case tabs g of
        None \<Rightarrow> Inl TypeError
      | Some ts \<Rightarrow>
          (let tabsArray = map deactivate ts
           in if 0 \<le> index \<and> index < int (length tabsArray)
              then Inr (g\<lparr>tabs := Some (tabsArray[nat index := activate (tabsArray ! nat index)])\<rparr>)
              else Inr (g\<lparr>tabs := Some tabsArray\<rparr>)))"

text \<open>A run of the widget: one call after the other, stopping at the first error.\<close>

fun selectTabs :: "int list \<Rightarrow> TabGroupComponent \<Rightarrow> jserror + TabGroupComponent" where
  "selectTabs [] g = Inr g"
| "selectTabs (i # is) g =
     (case selectTab i g of Inl e \<Rightarrow> Inl e | Inr g' \<Rightarrow> selectTabs is g')"

definition session :: "int list \<Rightarrow> TabGroupComponent \<Rightarrow> jserror + TabGroupComponent" where
  \<comment> \<open>content initialisation, then the selections in order\<close>
  "session is g =
     (case ngAfterContentInit g of Inl e \<Rightarrow> Inl e | Inr g' \<Rightarrow> selectTabs is g')"

definition active_count :: "TabGroupComponent \<Rightarrow> nat" where
  \<comment> \<open>how many of the known child tabs are active\<close>
  "active_count g = (case tabs g of None \<Rightarrow> 0 | Some ts \<Rightarrow> length (filter active ts))"

section \<open>The user card\<close>

text \<open>
  \<^verbatim>\<open>interface User { name: string }\<close>. TypeScript types are structural, so an object
  held as a \<^verbatim>\<open>User\<close> may carry further properties; they are the extension part of the
  record (the type \<^verbatim>\<open>'r User_scheme\<close>).

  The component holds a reference to its user object, and the claims distinguish a new
  object from an update of the old one. Objects therefore live in a store: a list of
  objects, the reference being the position. Allocation appends, so a new reference is
  the length of the store before the allocation.
\<close>

record User =
  name :: string

type_synonym ref = nat

record UserComponent =
  user :: ref
  counter :: int
  apiData :: string
  loading :: bool  \<comment> \<open>the value held by the signal\<close>
  cdr :: ref  \<comment> \<open>the injected change detector, an opaque handle\<close>

record 'r world =
  heap :: "'r User_scheme list"
  component :: UserComponent

definition new_UserComponent :: "ref \<Rightarrow> unit world" where
  \<comment> \<open>the field initialisers; the constructor body is empty\<close>
  "new_UserComponent injected =
     \<lparr>heap = [\<lparr>name = ''John Doe''\<rparr>],
      component = \<lparr>user = 0, counter = 0, apiData = ''No data'', loading = False,
                    cdr = injected\<rparr>\<rparr>"

definition allocated :: "'r world \<Rightarrow> bool" where
  \<comment> \<open>the \<^verbatim>\<open>user\<close> field refers to an object of the store\<close>
  "allocated w = (user (component w) < length (heap w))"

text \<open>
  The repository has two versions of \<^verbatim>\<open>UserComponent\<close> with these fields; the one
  modelled has them all, and \<^verbatim>\<open>mutateUser\<close> and \<^verbatim>\<open>replaceUser\<close> read the same in both.

  \<^verbatim>\<open>mutateUser($event)\<close> assigns \<^verbatim>\<open>'New Name' + Math.random()\<close> to the \<^verbatim>\<open>name\<close>
  property of the object that \<^verbatim>\<open>this.user\<close> refers to. The argument \<open>rnd\<close> is the
  string that the number returned by \<^verbatim>\<open>Math.random()\<close> converts to. The call
  \<^verbatim>\<open>$event.preventDefault()\<close> acts on the DOM event alone and is not modelled.
\<close>

definition mutateUser :: "string \<Rightarrow> 'r world \<Rightarrow> 'r world" where
  "mutateUser rnd w =
     w\<lparr>heap := (heap w)[user (component w) :=
                  (heap w ! user (component w))\<lparr>name := ''New Name'' @ rnd\<rparr>]\<rparr>"

text \<open>
  \<^verbatim>\<open>replaceUser()\<close>: the object literal \<^verbatim>\<open>{ ...this.user, name: 'New Name' }\<close>
  allocates an object with the properties of the current one, \<^verbatim>\<open>name\<close> overridden, and
  the assignment stores its reference in the field.
\<close>

definition replaceUser :: "'r world \<Rightarrow> 'r world" where
  "replaceUser w =
     w\<lparr>heap := heap w @ [(heap w ! user (component w))\<lparr>name := ''New Name''\<rparr>],
       component := (component w)\<lparr>user := length (heap w)\<rparr>\<rparr>"

subsection \<open>Deferred work\<close>

text \<open>
  \<^verbatim>\<open>fetchDataBad\<close> and \<^verbatim>\<open>fetchDataWithObservable\<close> touch no object of the store, so
  they are functions of the component record. Each does a part at once and leaves a
  callback for the event loop, run 1500 ms later. A method returns the component after
  the immediate part together with the callback; the callback is a function of the
  component as it is when the timer fires. How long the timer takes is not modelled.

  In \<^verbatim>\<open>fetchDataBad\<close> the promise is resolved by the timer and never rejected, and the
  \<^verbatim>\<open>then\<close> callback reads the clock when it runs: \<open>now\<close> is the string returned by
  \<^verbatim>\<open>new Date().toLocaleTimeString()\<close>. The two statements commented out in the source
  (\<^verbatim>\<open>this.loading.set(false)\<close> and \<^verbatim>\<open>this.cdr.markForCheck()\<close>) are not executed.
\<close>

definition fetchDataBad ::
  "UserComponent \<Rightarrow> UserComponent \<times> (string \<Rightarrow> UserComponent \<Rightarrow> UserComponent)" where
  "fetchDataBad c =
     (c\<lparr>loading := True\<rparr>,
      \<lambda>now c'. c'\<lparr>apiData := ''Data fetched at '' @ now\<rparr>)"

subsection \<open>The observable pipeline\<close>

text \<open>
  The RxJS operators that \<^verbatim>\<open>fetchDataWithObservable\<close> uses. An observable delivers
  \<^verbatim>\<open>next\<close> notifications and ends with \<^verbatim>\<open>error\<close> or \<^verbatim>\<open>complete\<close>. Subscribing to
  one runs the callbacks of its operators on the subscriber's state, so an observable is
  a function from the state to the notifications delivered and the state afterwards.
\<close>

datatype ('a, 'e) notification = Next 'a | Error 'e | Complete

type_synonym ('s, 'a, 'e) observable = "'s \<Rightarrow> ('a, 'e) notification list \<times> 's"

definition from_notifications :: "('a, 'e) notification list \<Rightarrow> ('s, 'a, 'e) observable" where
  \<comment> \<open>a source without effects of its own\<close>
  "from_notifications ns = (\<lambda>s. (ns, s))"

definition of_rx :: "'a \<Rightarrow> ('s, 'a, 'e) observable" where
  \<comment> \<open>\<^verbatim>\<open>of(v)\<close>: one value, then completion\<close>
  "of_rx v = from_notifications [Next v, Complete]"

definition delay_rx :: "nat \<Rightarrow> ('s, 'a, 'e) observable \<Rightarrow> ('s, 'a, 'e) observable" where
  \<comment> \<open>\<^verbatim>\<open>delay(ms)\<close> shifts the values in time and keeps their content and order\<close>
  "delay_rx ms source = source"

fun tap_run :: "('a \<Rightarrow> 's \<Rightarrow> 's) \<Rightarrow> ('a, 'e) notification list \<Rightarrow> 's \<Rightarrow>
    ('a, 'e) notification list \<times> 's" where
  "tap_run f [] s = ([], s)"
| "tap_run f (Next v # ns) s =
     (let s' = f v s; (ms, s'') = tap_run f ns s' in (Next v # ms, s''))"
| "tap_run f (Error e # ns) s = ([Error e], s)"
| "tap_run f (Complete # ns) s = ([Complete], s)"

definition tap_rx :: "('a \<Rightarrow> 's \<Rightarrow> 's) \<Rightarrow> ('s, 'a, 'e) observable \<Rightarrow> ('s, 'a, 'e) observable" where
  \<comment> \<open>\<^verbatim>\<open>tap(f)\<close>: run \<open>f\<close> on each value and pass every notification on\<close>
  "tap_rx f source = (\<lambda>s. let (ns, s') = source s in tap_run f ns s')"

fun catch_run :: "('e \<Rightarrow> 's \<Rightarrow> ('s, 'b, 'e) observable \<times> 's) \<Rightarrow> ('a, 'e) notification list \<Rightarrow>
    's \<Rightarrow> ('a + 'b, 'e) notification list \<times> 's" where
  "catch_run h [] s = ([], s)"
| "catch_run h (Next v # ns) s =
     (let (ms, s') = catch_run h ns s in (Next (Inl v) # ms, s'))"
| "catch_run h (Error e # ns) s =
     (let (replacement, s') = h e s; (ms, s'') = replacement s'
      in (map (\<lambda>n. case n of Next w \<Rightarrow> Next (Inr w) | Error x \<Rightarrow> Error x
                             | Complete \<Rightarrow> Complete) ms, s''))"
| "catch_run h (Complete # ns) s = ([Complete], s)"

definition catchError_rx :: "('e \<Rightarrow> 's \<Rightarrow> ('s, 'b, 'e) observable \<times> 's) \<Rightarrow>
    ('s, 'a, 'e) observable \<Rightarrow> ('s, 'a + 'b, 'e) observable" where
  \<comment> \<open>\<^verbatim>\<open>catchError(h)\<close>: values pass; on an error run \<open>h\<close> and continue with the
      observable it returns\<close>
  "catchError_rx h source = (\<lambda>s. let (ns, s') = source s in catch_run h ns s')"

definition subscribe :: "('s, 'a, 'e) observable \<Rightarrow> 's \<Rightarrow> 's" where
  \<comment> \<open>\<^verbatim>\<open>subscribe()\<close> without an observer: the notifications are dropped\<close>
  "subscribe source s = snd (source s)"

record ApiResponse =
  data :: string
  timestamp :: string

definition on_response :: "ApiResponse \<Rightarrow> UserComponent \<Rightarrow> UserComponent" where
  \<comment> \<open>the \<^verbatim>\<open>tap\<close> callback\<close>
  "on_response response c =
     (c\<lparr>apiData := ''Data: '' @ data response @ '' at '' @ timestamp response\<rparr>)
       \<lparr>loading := False\<rparr>"

definition on_error :: "'e \<Rightarrow> UserComponent \<Rightarrow> (UserComponent, unit, 'e) observable \<times> UserComponent" where
  \<comment> \<open>the \<^verbatim>\<open>catchError\<close> callback; \<^verbatim>\<open>null\<close> is the value of \<^typ>\<open>unit\<close>\<close>
  "on_error error c = (of_rx (), c\<lparr>loading := False\<rparr>)"

definition fetch_pipeline :: "(UserComponent, ApiResponse, 'e) observable \<Rightarrow>
    (UserComponent, ApiResponse + unit, 'e) observable" where
  \<comment> \<open>\<^verbatim>\<open>.pipe(delay(1500), tap(...), catchError(...))\<close>\<close>
  "fetch_pipeline source = catchError_rx on_error (tap_rx on_response (delay_rx 1500 source))"

text \<open>
  \<^verbatim>\<open>fetchDataWithObservable\<close> reads the clock when it builds the source: \<open>now\<close> is the
  string returned by \<^verbatim>\<open>new Date().toLocaleTimeString()\<close> at the call. Because of
  \<^verbatim>\<open>delay\<close>, everything the subscription does happens when the timer fires.
\<close>

definition fetchDataWithObservable ::
  "string \<Rightarrow> UserComponent \<Rightarrow> UserComponent \<times> (UserComponent \<Rightarrow> UserComponent)" where
  "fetchDataWithObservable now c =
     (c\<lparr>loading := True\<rparr>,
      subscribe (fetch_pipeline
        (of_rx \<lparr>data = ''API Response'', timestamp = now\<rparr>
           :: (UserComponent, ApiResponse, jserror) observable)))"

section \<open>Properties of the tab widget\<close>

lemma activate_deactivate: "activate (deactivate t) = activate t"
  by (simp add: activate_def deactivate_def)

lemma active_activate: "active (activate t)"
  by (simp add: activate_def)

lemma active_deactivate: "\<not> active (deactivate t)"
  by (simp add: deactivate_def)

lemma title_activate: "title (activate t) = title t"
  by (simp add: activate_def)

lemma title_deactivate: "title (deactivate t) = title t"
  by (simp add: deactivate_def)

lemma filter_active_deactivate: "filter active (map deactivate ts) = []"
  by (induction ts) (simp_all add: active_deactivate)

lemma filter_active_none: "\<forall>t \<in> set ts. \<not> active t \<Longrightarrow> filter active ts = []"
  by (induction ts) simp_all

lemma filter_active_update:
  "n < length ts \<Longrightarrow> filter active ts = [] \<Longrightarrow>
   length (filter active (ts[n := activate u])) = 1"
proof (induction ts arbitrary: n)
  case Nil
  then show ?case by simp
next
  case (Cons t ts)
  show ?case
  proof (cases n)
    case 0
    with Cons.prems show ?thesis
      by (simp add: active_activate split: if_splits)
  next
    case (Suc m)
    with Cons.prems have "m < length ts" and "filter active ts = []" and "\<not> active t"
      by (simp_all split: if_splits)
    with Cons.IH [of m] Suc show ?thesis by simp
  qed
qed

lemma selectTab_known:
  assumes "tabs g = Some ts"
  shows "selectTab i g =
     Inr (g\<lparr>tabs := Some (if 0 \<le> i \<and> i < int (length ts)
                            then (map deactivate ts)[nat i := activate (ts ! nat i)]
                            else map deactivate ts)\<rparr>)"
proof (cases "0 \<le> i \<and> i < int (length ts)")
  case True
  then have "nat i < length ts" by linarith
  with True assms show ?thesis
    by (simp add: selectTab_def Let_def activate_deactivate)
next
  case False
  with assms show ?thesis
    by (auto simp add: selectTab_def Let_def)
qed

lemma selectTab_in_range_count:
  assumes "tabs g = Some ts" and "0 \<le> i" and "i < int (length ts)"
  shows "\<exists>g' ts'. selectTab i g = Inr g' \<and> tabs g' = Some ts' \<and>
           length ts' = length ts \<and> active_count g' = 1"
proof -
  from assms have n: "nat i < length (map deactivate ts)" by simp
  have "length (filter active ((map deactivate ts)[nat i := activate (ts ! nat i)])) = 1"
    using filter_active_update [OF n filter_active_deactivate] .
  with assms show ?thesis
    by (simp add: selectTab_known active_count_def)
qed

lemma selectTabs_in_range_count:
  "tabs g = Some ts \<Longrightarrow> \<forall>i \<in> set is. 0 \<le> i \<and> i < int (length ts) \<Longrightarrow>
   active_count g = 1 \<Longrightarrow>
   \<exists>g' ts'. selectTabs is g = Inr g' \<and> tabs g' = Some ts' \<and>
     length ts' = length ts \<and> active_count g' = 1"
proof (induction "is" arbitrary: g ts)
  case Nil
  then show ?case by simp
next
  case (Cons i "is")
  from Cons.prems have "0 \<le> i" and "i < int (length ts)" by simp_all
  from selectTab_in_range_count [OF Cons.prems(1) this]
  obtain g1 ts1 where s: "selectTab i g = Inr g1" and t: "tabs g1 = Some ts1"
    and l: "length ts1 = length ts" and c: "active_count g1 = 1"
    by blast
  from Cons.prems(2) l have r: "\<forall>i \<in> set is. 0 \<le> i \<and> i < int (length ts1)" by simp
  from Cons.IH [OF t r c] s l show ?case by simp
qed

lemma ngAfterContentInit_count:
  assumes "tabs g = Some ts" and "ts \<noteq> []" and "\<forall>t \<in> set ts. \<not> active t"
  shows "\<exists>g' ts'. ngAfterContentInit g = Inr g' \<and> tabs g' = Some ts' \<and>
           length ts' = length ts \<and> active_count g' = 1"
proof -
  from assms(2) have n: "0 < length ts" by simp
  have "length (filter active (ts[0 := activate (ts ! 0)])) = 1"
    using filter_active_update [OF n filter_active_none [OF assms(3)]] .
  with assms n show ?thesis
    by (simp add: ngAfterContentInit_def active_count_def)
qed

text \<open>
  Claim C1, as amended. Let the child tabs be known, at least one, and all inactive (as
  \<^verbatim>\<open>TabComponent\<close> initialises them). Then after content initialisation and after each
  further \<^verbatim>\<open>selectTab\<close> call of any sequence whose indices are all in range (\<open>k\<close> is
  the number of calls made so far), no call has raised, the group still has the same
  number of tabs, and exactly one of them is active.
\<close>

theorem exactly_one_active_in_range:
  assumes "tabs g = Some ts" and "ts \<noteq> []" and "\<forall>t \<in> set ts. \<not> active t"
    and "\<forall>i \<in> set is. 0 \<le> i \<and> i < int (length ts)"
  shows "\<forall>k \<le> length is. \<exists>g' ts'. session (take k is) g = Inr g' \<and> tabs g' = Some ts' \<and>
           length ts' = length ts \<and> active_count g' = 1"
proof (intro allI impI)
  fix k
  assume "k \<le> length is"
  from ngAfterContentInit_count [OF assms(1-3)]
  obtain g0 ts0 where i: "ngAfterContentInit g = Inr g0" and t: "tabs g0 = Some ts0"
    and l: "length ts0 = length ts" and c: "active_count g0 = 1"
    by blast
  have "set (take k is) \<subseteq> set is" by (rule set_take_subset)
  with assms(4) l have r: "\<forall>i \<in> set (take k is). 0 \<le> i \<and> i < int (length ts0)" by auto
  from selectTabs_in_range_count [OF t r c] i l show
    "\<exists>g' ts'. session (take k is) g = Inr g' \<and> tabs g' = Some ts' \<and>
       length ts' = length ts \<and> active_count g' = 1"
    by (simp add: session_def)
qed

theorem exactly_one_active_in_range_witness:
  "\<exists>g' ts'.
     session (take 2 [1, 0])
       \<lparr>tabs = Some [new_TabComponent ''A'', new_TabComponent ''B'']\<rparr> = Inr g' \<and>
     tabs g' = Some ts' \<and>
     length ts' = length [new_TabComponent ''A'', new_TabComponent ''B''] \<and>
     active_count g' = 1"
proof -
  let ?ts = "[new_TabComponent ''A'', new_TabComponent ''B'']"
  have known: "tabs \<lparr>tabs = Some ?ts\<rparr> = Some ?ts" by simp
  have nonempty: "?ts \<noteq> []" by simp
  have fresh: "\<forall>t \<in> set ?ts. \<not> active t" by (simp add: new_TabComponent_def)
  have range: "\<forall>i \<in> set [1, 0 :: int]. 0 \<le> i \<and> i < int (length ?ts)" by simp
  have calls: "(2::nat) \<le> length [1, 0 :: int]" by simp
  from exactly_one_active_in_range [OF known nonempty fresh range] calls
  show ?thesis by blast
qed

text \<open>
  Claim C1 as stated fails: with two tabs, content initialisation followed by
  \<^verbatim>\<open>selectTab(5)\<close> leaves no tab active; and a group without tabs has no active tab
  after content initialisation.
\<close>

theorem exactly_one_active_counterexample:
  "session [5] \<lparr>tabs = Some [new_TabComponent ''A'', new_TabComponent ''B'']\<rparr> =
     Inr \<lparr>tabs = Some [\<lparr>title = ''A'', active = False\<rparr>, \<lparr>title = ''B'', active = False\<rparr>]\<rparr> \<and>
   active_count \<lparr>tabs = Some [\<lparr>title = ''A'', active = False\<rparr>, \<lparr>title = ''B'', active = False\<rparr>]\<rparr> \<noteq> 1 \<and>
   session [] \<lparr>tabs = Some []\<rparr> = Inr \<lparr>tabs = Some []\<rparr> \<and>
   active_count \<lparr>tabs = Some []\<rparr> \<noteq> 1"
  by (simp add: session_def ngAfterContentInit_def selectTab_def new_TabComponent_def
      activate_def deactivate_def active_count_def)

text \<open>
  Claim C2. Once the child tabs are known, \<^verbatim>\<open>selectTab(i)\<close> returns normally for every
  index \<open>i\<close>; it keeps the number of tabs and their titles, and afterwards the tab at
  position \<open>j\<close> is active if and only if \<open>j\<close> is \<open>i\<close>: the tab at index \<open>i\<close> is
  active and every other tab is inactive.
\<close>

theorem selectTab_activates_exactly_index:
  assumes "tabs g = Some ts"
  shows "\<exists>ts'. selectTab i g = Inr (g\<lparr>tabs := Some ts'\<rparr>) \<and> length ts' = length ts \<and>
           (\<forall>j < length ts. active (ts' ! j) = (int j = i) \<and> title (ts' ! j) = title (ts ! j))"
proof (cases "0 \<le> i \<and> i < int (length ts)")
  case True
  then have n: "nat i < length ts" by linarith
  let ?ts' = "(map deactivate ts)[nat i := activate (ts ! nat i)]"
  have "\<forall>j < length ts. active (?ts' ! j) = (int j = i) \<and> title (?ts' ! j) = title (ts ! j)"
  proof (intro allI impI)
    fix j
    assume j: "j < length ts"
    show "active (?ts' ! j) = (int j = i) \<and> title (?ts' ! j) = title (ts ! j)"
    proof (cases "j = nat i")
      case True
      with j \<open>0 \<le> i \<and> i < int (length ts)\<close> show ?thesis
        by (simp add: active_activate title_activate)
    next
      case False
      with j \<open>0 \<le> i \<and> i < int (length ts)\<close> have "int j \<noteq> i" by auto
      with False j show ?thesis
        by (simp add: active_deactivate title_deactivate)
    qed
  qed
  moreover from True have "selectTab i g = Inr (g\<lparr>tabs := Some ?ts'\<rparr>)"
    by (simp add: selectTab_known [OF assms])
  moreover have "length ?ts' = length ts" by simp
  ultimately show ?thesis by blast
next
  case False
  then have "\<forall>j < length ts. int j \<noteq> i" by auto
  then have "\<forall>j < length ts. active (map deactivate ts ! j) = (int j = i) \<and>
      title (map deactivate ts ! j) = title (ts ! j)"
    by (simp add: active_deactivate title_deactivate)
  moreover from False have "selectTab i g = Inr (g\<lparr>tabs := Some (map deactivate ts)\<rparr>)"
    by (auto simp add: selectTab_known [OF assms])
  moreover have "length (map deactivate ts) = length ts" by simp
  ultimately show ?thesis by blast
qed

theorem selectTab_activates_exactly_index_witness:
  "\<exists>ts'. selectTab 1 \<lparr>tabs = Some [new_TabComponent ''A'', new_TabComponent ''B'']\<rparr>
          = Inr (\<lparr>tabs = Some [new_TabComponent ''A'', new_TabComponent ''B'']\<rparr>\<lparr>tabs := Some ts'\<rparr>) \<and>
     length ts' = length [new_TabComponent ''A'', new_TabComponent ''B''] \<and>
     (\<forall>j < length [new_TabComponent ''A'', new_TabComponent ''B''].
        active (ts' ! j) = (int j = 1) \<and>
        title (ts' ! j) = title ([new_TabComponent ''A'', new_TabComponent ''B''] ! j))"
proof -
  have h: "tabs \<lparr>tabs = Some [new_TabComponent ''A'', new_TabComponent ''B'']\<rparr> =
             Some [new_TabComponent ''A'', new_TabComponent ''B'']"
    by simp
  show ?thesis
    by (rule selectTab_activates_exactly_index [OF h])
qed


text \<open>
  Claim C3. When the child tabs are known and the list is not empty,
  \<^verbatim>\<open>ngAfterContentInit\<close> returns normally, activates the first tab and leaves the others
  as they are; the first tab of the result is active.
\<close>

theorem first_tab_active_by_default:
  assumes "tabs g = Some ts" and "ts \<noteq> []"
  shows "ngAfterContentInit g = Inr (g\<lparr>tabs := Some (activate (hd ts) # tl ts)\<rparr>) \<and>
         active (hd (activate (hd ts) # tl ts))"
proof -
  from assms(2) obtain t rest where "ts = t # rest" by (cases ts) auto
  with assms(1) show ?thesis
    by (simp add: ngAfterContentInit_def active_activate)
qed

theorem first_tab_active_by_default_witness:
  "ngAfterContentInit \<lparr>tabs = Some [new_TabComponent ''A'', new_TabComponent ''B'']\<rparr> =
     Inr (\<lparr>tabs = Some [new_TabComponent ''A'', new_TabComponent ''B'']\<rparr>
            \<lparr>tabs := Some (activate (hd [new_TabComponent ''A'', new_TabComponent ''B'']) #
                            tl [new_TabComponent ''A'', new_TabComponent ''B''])\<rparr>) \<and>
   active (hd (activate (hd [new_TabComponent ''A'', new_TabComponent ''B'']) #
               tl [new_TabComponent ''A'', new_TabComponent ''B'']))"
proof -
  let ?ts = "[new_TabComponent ''A'', new_TabComponent ''B'']"
  have known: "tabs \<lparr>tabs = Some ?ts\<rparr> = Some ?ts" by simp
  have nonempty: "?ts \<noteq> []" by simp
  show ?thesis
    by (rule first_tab_active_by_default [OF known nonempty])
qed

text \<open>
  Claim C4. Once the child tabs are known (the list may be empty), \<^verbatim>\<open>selectTab(i)\<close>
  with \<open>i < 0\<close> or \<open>i\<close> at least the number of tabs raises no error and deactivates
  every tab: no tab of the result is active, the count of active tabs is zero.
\<close>

theorem selectTab_out_of_range:
  assumes "tabs g = Some ts" and "i < 0 \<or> int (length ts) \<le> i"
  shows "selectTab i g = Inr (g\<lparr>tabs := Some (map deactivate ts)\<rparr>) \<and>
         (\<forall>t \<in> set (map deactivate ts). \<not> active t) \<and>
         active_count (g\<lparr>tabs := Some (map deactivate ts)\<rparr>) = 0"
proof -
  from assms(2) have "\<not> (0 \<le> i \<and> i < int (length ts))" by auto
  then have "selectTab i g = Inr (g\<lparr>tabs := Some (map deactivate ts)\<rparr>)"
    by (auto simp add: selectTab_known [OF assms(1)])
  moreover have "\<forall>t \<in> set (map deactivate ts). \<not> active t"
    by (auto simp add: active_deactivate)
  moreover have "active_count (g\<lparr>tabs := Some (map deactivate ts)\<rparr>) = 0"
    by (simp add: active_count_def filter_active_deactivate)
  ultimately show ?thesis by blast
qed

theorem selectTab_out_of_range_witness:
  "selectTab (- 1) \<lparr>tabs = Some [activate (new_TabComponent ''A''), new_TabComponent ''B'']\<rparr> =
     Inr \<lparr>tabs = Some [\<lparr>title = ''A'', active = False\<rparr>, \<lparr>title = ''B'', active = False\<rparr>]\<rparr> \<and>
   active_count
     \<lparr>tabs = Some [\<lparr>title = ''A'', active = False\<rparr>, \<lparr>title = ''B'', active = False\<rparr>]\<rparr> = 0"
proof -
  let ?ts = "[activate (new_TabComponent ''A''), new_TabComponent ''B'']"
  have known: "tabs \<lparr>tabs = Some ?ts\<rparr> = Some ?ts" by simp
  have outside: "(- 1 :: int) < 0 \<or> int (length ?ts) \<le> - 1" by simp
  from selectTab_out_of_range [OF known outside]
  show ?thesis
    by (simp add: new_TabComponent_def activate_def deactivate_def)
qed

lemma map_deactivate_update:
  "n < length ts \<Longrightarrow>
   map deactivate ((map deactivate ts)[n := activate (ts ! n)]) = map deactivate ts"
  by (simp add: list_eq_iff_nth_eq nth_list_update deactivate_def activate_def)

lemma map_deactivate_idem: "map deactivate (map deactivate ts) = map deactivate ts"
  by (simp add: deactivate_def)

lemma selectTab_twice:
  "(case selectTab i g of Inl e \<Rightarrow> Inl e | Inr g' \<Rightarrow> selectTab j g') = selectTab j g"
proof (cases "tabs g")
  case None
  then show ?thesis by (simp add: selectTab_def)
next
  case (Some ts)
  let ?mid = "if 0 \<le> i \<and> i < int (length ts)
              then (map deactivate ts)[nat i := activate (ts ! nat i)]
              else map deactivate ts"
  have len: "length ?mid = length ts" by simp
  have deact: "map deactivate ?mid = map deactivate ts"
  proof (cases "0 \<le> i \<and> i < int (length ts)")
    case True
    then have "nat i < length ts" by linarith
    from map_deactivate_update [OF this] True show ?thesis by simp
  next
    case False
    then have "?mid = map deactivate ts" by auto
    then show ?thesis by (simp only: map_deactivate_idem)
  qed
  have mid: "tabs (g\<lparr>tabs := Some ?mid\<rparr>) = Some ?mid" by simp
  have "selectTab j (g\<lparr>tabs := Some ?mid\<rparr>) = selectTab j g"
    unfolding selectTab_def Let_def by (simp only: mid Some option.case deact) simp
  then show ?thesis
    by (simp add: selectTab_known [OF Some])
qed

lemma selectTabs_single: "selectTabs [k] g = selectTab k g"
  by (cases "selectTab k g") simp_all

text \<open>
  Claim C8. \<^verbatim>\<open>selectTab(i)\<close> followed by \<^verbatim>\<open>selectTab(j)\<close> gives the same result as
  \<^verbatim>\<open>selectTab(j)\<close> alone, and \<^verbatim>\<open>selectTab(i)\<close> twice the same as once. This holds for
  all indices, so in particular for those in range.
\<close>

theorem selectTab_absorbing:
  "selectTabs [i, j] g = selectTab j g \<and> selectTabs [i, i] g = selectTab i g"
proof -
  have "selectTabs [i, k] g = selectTab k g" for k
  proof -
    have "selectTabs [i, k] g =
        (case selectTab i g of Inl e \<Rightarrow> Inl e | Inr g' \<Rightarrow> selectTabs [k] g')"
      by (rule selectTabs.simps(2))
    also have "\<dots> = (case selectTab i g of Inl e \<Rightarrow> Inl e | Inr g' \<Rightarrow> selectTab k g')"
      by (cases "selectTab i g") (simp_all only: sum.case selectTabs_single)
    also have "\<dots> = selectTab k g"
      by (rule selectTab_twice)
    finally show ?thesis .
  qed
  then show ?thesis by simp
qed

section \<open>Properties of the user card\<close>

text \<open>
  Claim C5. Let the \<^verbatim>\<open>user\<close> field refer to an object of the store.

  \<^verbatim>\<open>replaceUser\<close>: the field afterwards holds a reference that the store did not have
  before; the store has grown by exactly that object and its old objects, the previous
  user object among them, are as they were; the new object's \<^verbatim>\<open>name\<close> is
  \<^verbatim>\<open>'New Name'\<close> and its other properties are those of the previous user object; the
  fields \<^verbatim>\<open>counter\<close>, \<^verbatim>\<open>apiData\<close>, \<^verbatim>\<open>loading\<close> and \<^verbatim>\<open>cdr\<close> keep their values.

  \<^verbatim>\<open>mutateUser\<close>: no field of the component changes, the reference in \<^verbatim>\<open>user\<close>
  included; the store has as many objects as before; the object the field refers to has
  the new \<^verbatim>\<open>name\<close> and its other properties unchanged; putting the old user object back
  at its place gives the old store, so no other object has changed.
\<close>

theorem replaceUser_new_object_mutateUser_in_place:
  assumes "allocated w"
  shows "\<not> user (component (replaceUser w)) < length (heap w) \<and>
         length (heap (replaceUser w)) = Suc (length (heap w)) \<and>
         take (length (heap w)) (heap (replaceUser w)) = heap w \<and>
         name (heap (replaceUser w) ! user (component (replaceUser w))) = ''New Name'' \<and>
         User.more (heap (replaceUser w) ! user (component (replaceUser w))) =
           User.more (heap w ! user (component w)) \<and>
         counter (component (replaceUser w)) = counter (component w) \<and>
         apiData (component (replaceUser w)) = apiData (component w) \<and>
         loading (component (replaceUser w)) = loading (component w) \<and>
         cdr (component (replaceUser w)) = cdr (component w) \<and>
         component (mutateUser rnd w) = component w \<and>
         length (heap (mutateUser rnd w)) = length (heap w) \<and>
         name (heap (mutateUser rnd w) ! user (component w)) = ''New Name'' @ rnd \<and>
         User.more (heap (mutateUser rnd w) ! user (component w)) =
           User.more (heap w ! user (component w)) \<and>
         (heap (mutateUser rnd w))[user (component w) := heap w ! user (component w)] = heap w"
proof -
  from assms have u: "user (component w) < length (heap w)"
    by (simp add: allocated_def)
  have r: "\<not> user (component (replaceUser w)) < length (heap w) \<and>
         length (heap (replaceUser w)) = Suc (length (heap w)) \<and>
         take (length (heap w)) (heap (replaceUser w)) = heap w \<and>
         name (heap (replaceUser w) ! user (component (replaceUser w))) = ''New Name'' \<and>
         User.more (heap (replaceUser w) ! user (component (replaceUser w))) =
           User.more (heap w ! user (component w))"
    by (simp add: replaceUser_def)
  have f: "counter (component (replaceUser w)) = counter (component w) \<and>
         apiData (component (replaceUser w)) = apiData (component w) \<and>
         loading (component (replaceUser w)) = loading (component w) \<and>
         cdr (component (replaceUser w)) = cdr (component w)"
    by (simp add: replaceUser_def)
  from u have m: "component (mutateUser rnd w) = component w \<and>
         length (heap (mutateUser rnd w)) = length (heap w) \<and>
         name (heap (mutateUser rnd w) ! user (component w)) = ''New Name'' @ rnd \<and>
         User.more (heap (mutateUser rnd w) ! user (component w)) =
           User.more (heap w ! user (component w)) \<and>
         (heap (mutateUser rnd w))[user (component w) := heap w ! user (component w)] = heap w"
    by (simp add: mutateUser_def)
  from r f m show ?thesis by simp
qed

theorem replaceUser_new_object_mutateUser_in_place_witness:
  "allocated (new_UserComponent 7) \<and>
   replaceUser (new_UserComponent 7) =
     \<lparr>heap = [\<lparr>name = ''John Doe''\<rparr>, \<lparr>name = ''New Name''\<rparr>],
      component = \<lparr>user = 1, counter = 0, apiData = ''No data'', loading = False, cdr = 7\<rparr>\<rparr> \<and>
   mutateUser ''0.25'' (new_UserComponent 7) =
     \<lparr>heap = [\<lparr>name = ''New Name0.25''\<rparr>],
      component = \<lparr>user = 0, counter = 0, apiData = ''No data'', loading = False, cdr = 7\<rparr>\<rparr> \<and>
   name (heap (replaceUser (new_UserComponent 7)) !
           user (component (replaceUser (new_UserComponent 7)))) = ''New Name'' \<and>
   name (heap (mutateUser ''0.25'' (new_UserComponent 7)) !
           user (component (new_UserComponent 7))) = ''New Name'' @ ''0.25''"
proof -
  have a: "allocated (new_UserComponent 7)"
    by (simp add: allocated_def new_UserComponent_def)
  have r: "replaceUser (new_UserComponent 7) =
     \<lparr>heap = [\<lparr>name = ''John Doe''\<rparr>, \<lparr>name = ''New Name''\<rparr>],
      component = \<lparr>user = 1, counter = 0, apiData = ''No data'', loading = False, cdr = 7\<rparr>\<rparr>"
    by (simp add: replaceUser_def new_UserComponent_def)
  have m: "mutateUser ''0.25'' (new_UserComponent 7) =
     \<lparr>heap = [\<lparr>name = ''New Name0.25''\<rparr>],
      component = \<lparr>user = 0, counter = 0, apiData = ''No data'', loading = False, cdr = 7\<rparr>\<rparr>"
    by (simp add: mutateUser_def new_UserComponent_def)
  from replaceUser_new_object_mutateUser_in_place [OF a, of "''0.25''"] a r m
  show ?thesis by blast
qed

lemma tap_run_loading:
  "\<not> loading s \<Longrightarrow> \<not> loading (snd (tap_run on_response ns s))"
proof (induction ns arbitrary: s)
  case Nil
  then show ?case by simp
next
  case (Cons n ns)
  show ?case
  proof (cases n)
    case (Next v)
    have "\<not> loading (on_response v s)" by (simp add: on_response_def)
    from Cons.IH [OF this] Next show ?thesis
      by (simp add: Let_def split_beta)
  next
    case (Error e)
    with Cons.prems show ?thesis by simp
  next
    case Complete
    with Cons.prems show ?thesis by simp
  qed
qed

lemma catch_run_loading:
  "\<not> loading s \<Longrightarrow> \<not> loading (snd (catch_run on_error ns s))"
proof (induction ns arbitrary: s)
  case Nil
  then show ?case by simp
next
  case (Cons n ns)
  show ?case
  proof (cases n)
    case (Next v)
    with Cons.IH [OF Cons.prems] show ?thesis
      by (simp add: split_beta)
  next
    case (Error e)
    then show ?thesis
      by (simp add: on_error_def of_rx_def from_notifications_def)
  next
    case Complete
    with Cons.prems show ?thesis by simp
  qed
qed

lemma pipeline_on_value:
  "\<not> loading (subscribe (fetch_pipeline (from_notifications (Next r # ns))) c)"
proof -
  have "\<not> loading (on_response r c)" by (simp add: on_response_def)
  then have "\<not> loading (snd (tap_run on_response ns (on_response r c)))"
    by (rule tap_run_loading)
  then have "\<not> loading (snd (catch_run on_error
      (fst (tap_run on_response ns (on_response r c)))
      (snd (tap_run on_response ns (on_response r c)))))"
    by (rule catch_run_loading)
  then show ?thesis
    by (simp add: subscribe_def fetch_pipeline_def catchError_rx_def tap_rx_def delay_rx_def
        from_notifications_def Let_def split_beta)
qed

lemma pipeline_on_error:
  "\<not> loading (subscribe (fetch_pipeline (from_notifications (Error e # ns))) c)"
  by (simp add: subscribe_def fetch_pipeline_def catchError_rx_def tap_rx_def delay_rx_def
      from_notifications_def on_error_def of_rx_def)

text \<open>
  Claim C6. \<^verbatim>\<open>fetchDataWithObservable\<close> sets \<^verbatim>\<open>loading\<close> to true at once. Its deferred
  part leaves \<^verbatim>\<open>loading\<close> false, whatever the component is like when the timer fires
  (\<open>c'\<close>), and so in particular when nothing else ran in between. The same pipeline
  leaves \<^verbatim>\<open>loading\<close> false on every source that starts with a value (reset by the
  \<^verbatim>\<open>tap\<close> callback) and on every source that starts with an error (reset by the
  \<^verbatim>\<open>catchError\<close> callback).
\<close>

theorem fetchDataWithObservable_resets_loading:
  "loading (fst (fetchDataWithObservable now c)) \<and>
   \<not> loading (snd (fetchDataWithObservable now c) c') \<and>
   \<not> loading (snd (fetchDataWithObservable now c) (fst (fetchDataWithObservable now c))) \<and>
   \<not> loading (subscribe (fetch_pipeline (from_notifications (Next r # ns))) c') \<and>
   \<not> loading (subscribe (fetch_pipeline (from_notifications (Error e # ns))) c')"
proof -
  have start: "loading (fst (fetchDataWithObservable now c))"
    by (simp add: fetchDataWithObservable_def)
  have finish: "\<not> loading (snd (fetchDataWithObservable now c) d)" for d
    using pipeline_on_value [of "\<lparr>data = ''API Response'', timestamp = now\<rparr>" "[Complete]" d]
    by (simp add: fetchDataWithObservable_def of_rx_def)
  show ?thesis
    by (simp only: start finish pipeline_on_value pipeline_on_error simp_thms)
qed

text \<open>
  Claim C7. \<^verbatim>\<open>fetchDataBad\<close> sets \<^verbatim>\<open>loading\<close> to true at once. Its completion
  callback stores the text with the time in \<^verbatim>\<open>apiData\<close> and leaves \<^verbatim>\<open>loading\<close> as
  it finds it; run after the immediate part, it ends with \<^verbatim>\<open>loading\<close> still true.
\<close>

theorem fetchDataBad_leaves_loading:
  "loading (fst (fetchDataBad c)) \<and>
   loading (snd (fetchDataBad c) now c') = loading c' \<and>
   apiData (snd (fetchDataBad c) now c') = ''Data fetched at '' @ now \<and>
   loading (snd (fetchDataBad c) now (fst (fetchDataBad c)))"
proof -
  have start: "loading (fst (fetchDataBad c))"
    by (simp add: fetchDataBad_def)
  have callback: "snd (fetchDataBad c) now d = d\<lparr>apiData := ''Data fetched at '' @ now\<rparr>" for d
    by (simp add: fetchDataBad_def)
  have kept: "loading (snd (fetchDataBad c) now d) = loading d" for d
    by (simp only: callback) simp
  have stored: "apiData (snd (fetchDataBad c) now c') = ''Data fetched at '' @ now"
    by (simp only: callback) simp
  from start kept [of "fst (fetchDataBad c)"] have "loading (snd (fetchDataBad c) now (fst (fetchDataBad c)))"
    by simp
  with start kept [of c'] stored show ?thesis by simp
qed

end
